theory Spec2Isabelle
  imports Main
begin

section \<open>The deduplication store (src/database.py)\<close>

text \<open>
  The store is one SQLite file per path holding the table \<open>processed_events\<close>, created by
  \<open>_init_db\<close> with \<open>UNIQUE(topic, event_id)\<close>. A row is modelled by its two key columns; the
  columns \<open>id\<close> (autoincrement) and \<open>processed_at\<close> (the clock) are read by no operation below.
  The table is the list of its rows in insertion order. The file system maps a path to the
  table stored there; \<open>None\<close> is a path at which no \<open>processed_events\<close> table exists (no file,
  or a fresh database file).

  Every method opens its own connection and sends one statement. What the SQLite engine does
  with the statement is an input of the model: it either completes, or raises
  (\<open>sqlite3.Error\<close>: the file is locked, the disk fails, ...). A statement on a missing table
  raises too.
\<close>

type_synonym table = "(string \<times> string) list"

type_synonym files = "string \<Rightarrow> table option"

datatype engine = Completes | Raises

datatype sqlite_error = NoSuchTable | StorageFault

record database =
  db_path :: string

text \<open>\<open>CREATE TABLE IF NOT EXISTS processed_events (...)\<close>, committed.\<close>

definition create_table_if_not_exists :: "files \<Rightarrow> string \<Rightarrow> files" where
  "create_table_if_not_exists fs path =
     (case fs path of None \<Rightarrow> fs(path \<mapsto> []) | Some rows \<Rightarrow> fs)"

text \<open>\<open>Database._init_db\<close>: no handler, so an engine error leaves the constructor.\<close>

definition init_db :: "engine \<Rightarrow> files \<Rightarrow> string \<Rightarrow> sqlite_error + files" where
  "init_db eng fs path =
     (case eng of
        Raises \<Rightarrow> Inl StorageFault
      | Completes \<Rightarrow> Inr (create_table_if_not_exists fs path))"

text \<open>\<open>Database.__init__\<close>: keeps the path and initialises the file.\<close>

definition Database :: "engine \<Rightarrow> files \<Rightarrow> string \<Rightarrow> sqlite_error + (database \<times> files)" where
  "Database eng fs path =
     (case init_db eng fs path of
        Inl err \<Rightarrow> Inl err
      | Inr fs' \<Rightarrow> Inr (\<lparr>db_path = path\<rparr>, fs'))"

text \<open>
  \<open>SELECT 1 FROM processed_events WHERE topic = ? AND event_id = ? LIMIT 1\<close> followed by
  \<open>fetchone()\<close>: the row \<open>(1,)\<close> or \<open>None\<close>.
\<close>

definition select_one :: "engine \<Rightarrow> files \<Rightarrow> string \<Rightarrow> string \<Rightarrow> string \<Rightarrow> sqlite_error + int option" where
  "select_one eng fs path topic event_id =
     (case eng of
        Raises \<Rightarrow> Inl StorageFault
      | Completes \<Rightarrow>
          (case fs path of
             None \<Rightarrow> Inl NoSuchTable
           | Some rows \<Rightarrow> Inr (if (topic, event_id) \<in> set rows then Some 1 else None)))"

text \<open>
  \<open>INSERT OR IGNORE INTO processed_events (topic, event_id) VALUES (?, ?)\<close> followed by
  \<open>commit()\<close>: the new file system and the cursor's \<open>rowcount\<close>. A row that would break the
  \<open>UNIQUE\<close> constraint is skipped and counts 0. An engine error changes nothing.
\<close>

definition insert_or_ignore :: "engine \<Rightarrow> files \<Rightarrow> string \<Rightarrow> string \<Rightarrow> string \<Rightarrow> sqlite_error + (files \<times> int)" where
  "insert_or_ignore eng fs path topic event_id =
     (case eng of
        Raises \<Rightarrow> Inl StorageFault
      | Completes \<Rightarrow>
          (case fs path of
             None \<Rightarrow> Inl NoSuchTable
           | Some rows \<Rightarrow>
               (if (topic, event_id) \<in> set rows then Inr (fs, 0)
                else Inr (fs(path \<mapsto> rows @ [(topic, event_id)]), 1))))"

text \<open>\<open>Database.is_processed\<close>: \<open>result is not None\<close>; an engine error propagates.\<close>

definition is_processed :: "engine \<Rightarrow> files \<Rightarrow> database \<Rightarrow> string \<Rightarrow> string \<Rightarrow> sqlite_error + bool" where
  "is_processed eng fs db topic event_id =
     (case select_one eng fs (db_path db) topic event_id of
        Inl err \<Rightarrow> Inl err
      | Inr result \<Rightarrow> Inr (result \<noteq> None))"

text \<open>
  \<open>Database.mark_processed\<close>: \<open>is_new = cursor.rowcount > 0\<close>. The whole body stands in
  \<open>try: ... except Exception as e: logger.error(...); return False\<close>, so the method always
  returns a boolean.
\<close>

definition mark_processed :: "engine \<Rightarrow> files \<Rightarrow> database \<Rightarrow> string \<Rightarrow> string \<Rightarrow> bool \<times> files" where
  "mark_processed eng fs db topic event_id =
     (case insert_or_ignore eng fs (db_path db) topic event_id of
        Inl err \<Rightarrow> (False, fs)
      | Inr (fs', rowcount) \<Rightarrow> (rowcount > 0, fs'))"

section \<open>The worker protocol (src/processor.py)\<close>

text \<open>
  \<open>Event\<close> of src/models.py. The payload is opaque to the protocol; it is kept as a list of
  key and encoded value.
\<close>

record event =
  topic :: string
  event_id :: string
  timestamp :: string
  source :: string
  payload :: "(string \<times> string) list"

text \<open>
  \<open>self.stats\<close> is a dict with the three keys below, all set to 0 by the constructor and
  never removed. It is a mutable object: the process heap holds the dict objects, an address
  is an index into it, and the processor keeps the address of its dict.
\<close>

record stats =
  received :: int
  unique_processed :: int
  duplicate_dropped :: int

type_synonym addr = nat

type_synonym heap = "stats list"

record event_processor =
  database :: database
  stats_ref :: addr

definition alloc :: "heap \<Rightarrow> stats \<Rightarrow> addr \<times> heap" where
  "alloc h d = (length h, h @ [d])"

text \<open>\<open>EventProcessor.__init__\<close>: a new dict with the three counters at 0.\<close>

definition EventProcessor :: "heap \<Rightarrow> database \<Rightarrow> event_processor \<times> heap" where
  "EventProcessor h db =
     (case alloc h \<lparr>received = 0, unique_processed = 0, duplicate_dropped = 0\<rparr> of
        (a, h') \<Rightarrow> (\<lparr>database = db, stats_ref = a\<rparr>, h'))"

text \<open>\<open>self.stats[key] += 1\<close>: the dict at the processor's address is updated in place.\<close>

definition incr_received :: "heap \<Rightarrow> addr \<Rightarrow> heap" where
  "incr_received h a = h[a := (h ! a)\<lparr>received := received (h ! a) + 1\<rparr>]"

definition incr_unique_processed :: "heap \<Rightarrow> addr \<Rightarrow> heap" where
  "incr_unique_processed h a = h[a := (h ! a)\<lparr>unique_processed := unique_processed (h ! a) + 1\<rparr>]"

definition incr_duplicate_dropped :: "heap \<Rightarrow> addr \<Rightarrow> heap" where
  "incr_duplicate_dropped h a = h[a := (h ! a)\<lparr>duplicate_dropped := duplicate_dropped (h ! a) + 1\<rparr>]"

text \<open>\<open>EventProcessor.get_stats\<close>: \<open>self.stats.copy()\<close>, a new dict with the same items.\<close>

definition get_stats :: "heap \<Rightarrow> event_processor \<Rightarrow> addr \<times> heap" where
  "get_stats h pr = alloc h (h ! stats_ref pr)"

text \<open>
  \<open>_process_event\<close> awaits the store twice, and other workers run while it waits. It is
  modelled by its two halves, each with the one statement it sends to the store.
  A delivery is \<open>Queued\<close> before a worker takes it, \<open>AwaitingMark\<close> when the existence check
  answered \<open>False\<close> and \<open>mark_processed\<close> has not run yet, \<open>Done\<close> when \<open>_process_event\<close> has
  returned, \<open>Failed\<close> when it was left by an exception of the store, which \<open>_worker\<close> catches
  and logs before it takes the next event, and \<open>Cancelled\<close> when \<open>stop()\<close> cancelled the
  worker's task while it awaited the store.
\<close>

datatype pc = Queued | AwaitingMark | Done | Failed sqlite_error | Cancelled

text \<open>
  At an await the worker either resumes with what the engine did with the statement, or
  \<open>stop()\<close> has cancelled its task and \<open>CancelledError\<close> is raised there. \<open>CancelledError\<close> is
  not an \<open>Exception\<close>: it passes the \<open>except Exception\<close> of \<open>mark_processed\<close> and of
  \<open>_process_event\<close> and ends the worker at \<open>except asyncio.CancelledError: break\<close>. The
  statement runs in the connection's own thread, so when the cancellation arrives the
  insert may already be committed; \<open>Cancels\<close> says whether it was.
\<close>

datatype wakeup = Resumes engine | Cancels bool

text \<open>
  First half: \<open>self.stats["received"] += 1\<close>, then \<open>is_processed\<close>, which is called outside the
  \<open>try\<close>; on \<open>True\<close> the duplicate counter is incremented and the method returns.
\<close>

definition process_event_check :: "engine \<Rightarrow> event_processor \<Rightarrow> files \<Rightarrow> heap \<Rightarrow> event \<Rightarrow> pc \<times> heap" where
  "process_event_check eng pr fs h ev =
     (case is_processed eng fs (database pr) (topic ev) (event_id ev) of
        Inl err \<Rightarrow> (Failed err, incr_received h (stats_ref pr))
      | Inr is_duplicate \<Rightarrow>
          (if is_duplicate
           then (Done, incr_duplicate_dropped (incr_received h (stats_ref pr)) (stats_ref pr))
           else (AwaitingMark, incr_received h (stats_ref pr))))"

text \<open>
  Second half, inside the \<open>try\<close>: \<open>mark_processed\<close>, then one of the two counters. As
  \<open>mark_processed\<close> returns a boolean on every path, the \<open>except\<close> branch of \<open>_process_event\<close>
  has no case here.
\<close>

definition process_event_mark :: "engine \<Rightarrow> event_processor \<Rightarrow> files \<Rightarrow> heap \<Rightarrow> event \<Rightarrow> pc \<times> files \<times> heap" where
  "process_event_mark eng pr fs h ev =
     (case mark_processed eng fs (database pr) (topic ev) (event_id ev) of
        (marked, fs') \<Rightarrow>
          (if marked then (Done, fs', incr_unique_processed h (stats_ref pr))
           else (Done, fs', incr_duplicate_dropped h (stats_ref pr))))"

text \<open>\<open>_process_event\<close> run from start to end with no other worker in between.\<close>

definition process_event :: "engine \<Rightarrow> engine \<Rightarrow> event_processor \<Rightarrow> files \<Rightarrow> heap \<Rightarrow> event \<Rightarrow> pc \<times> files \<times> heap" where
  "process_event eng1 eng2 pr fs h ev =
     (case process_event_check eng1 pr fs h ev of
        (AwaitingMark, h1) \<Rightarrow> process_event_mark eng2 pr fs h1 ev
      | (p, h1) \<Rightarrow> (p, fs, h1))"

text \<open>
  Cancelled while awaiting \<open>is_processed\<close>: the event was counted as received and nothing
  else happens. Cancelled while awaiting \<open>mark_processed\<close>: no counter moves; the row is in the
  table when the insert was committed before the cancellation arrived.
\<close>

definition cancelled_at_check :: "event_processor \<Rightarrow> heap \<Rightarrow> pc \<times> heap" where
  "cancelled_at_check pr h = (Cancelled, incr_received h (stats_ref pr))"

definition cancelled_at_mark :: "bool \<Rightarrow> event_processor \<Rightarrow> files \<Rightarrow> event \<Rightarrow> pc \<times> files" where
  "cancelled_at_mark committed pr fs ev =
     (if committed
      then (case insert_or_ignore Completes fs (db_path (database pr)) (topic ev) (event_id ev) of
              Inl err \<Rightarrow> (Cancelled, fs)
            | Inr (fs', rowcount) \<Rightarrow> (Cancelled, fs'))
      else (Cancelled, fs))"

text \<open>
  The running system: the files, the heap and the deliveries with their progress. A
  schedule names, step by step, the delivery that runs next and how its await ends. Any
  number of workers, in any interleaving, is a schedule.
\<close>

record system =
  files :: files
  heap :: heap
  tasks :: "(event \<times> pc) list"

definition step_check :: "event_processor \<Rightarrow> system \<Rightarrow> event \<Rightarrow> wakeup \<Rightarrow> pc \<times> heap" where
  "step_check pr s ev w =
     (case w of
        Resumes eng \<Rightarrow> process_event_check eng pr (files s) (heap s) ev
      | Cancels committed \<Rightarrow> cancelled_at_check pr (heap s))"

definition step_mark :: "event_processor \<Rightarrow> system \<Rightarrow> event \<Rightarrow> wakeup \<Rightarrow> pc \<times> files \<times> heap" where
  "step_mark pr s ev w =
     (case w of
        Resumes eng \<Rightarrow> process_event_mark eng pr (files s) (heap s) ev
      | Cancels committed \<Rightarrow>
          (case cancelled_at_mark committed pr (files s) ev of (p, fs) \<Rightarrow> (p, fs, heap s)))"

definition step :: "event_processor \<Rightarrow> system \<Rightarrow> nat \<times> wakeup \<Rightarrow> system" where
  "step pr s iw =
     (case iw of (i, w) \<Rightarrow>
        if i < length (tasks s) then
          (case tasks s ! i of
             (ev, Queued) \<Rightarrow>
               (case step_check pr s ev w of
                  (p, h) \<Rightarrow> s\<lparr>heap := h, tasks := (tasks s)[i := (ev, p)]\<rparr>)
           | (ev, AwaitingMark) \<Rightarrow>
               (case step_mark pr s ev w of
                  (p, fs, h) \<Rightarrow> s\<lparr>files := fs, heap := h, tasks := (tasks s)[i := (ev, p)]\<rparr>)
           | (ev, Done) \<Rightarrow> s
           | (ev, Failed err) \<Rightarrow> s
           | (ev, Cancelled) \<Rightarrow> s)
        else s)"

fun run :: "event_processor \<Rightarrow> system \<Rightarrow> (nat \<times> wakeup) list \<Rightarrow> system" where
  "run pr s [] = s"
| "run pr s (ie # sched) = run pr (step pr s ie) sched"


definition count_pc :: "(pc \<Rightarrow> bool) \<Rightarrow> (event \<times> pc) list \<Rightarrow> int" where
  "count_pc P ts = int (length (filter (\<lambda>t. P (snd t)) ts))"

definition is_Failed :: "pc \<Rightarrow> bool" where
  "is_Failed p = (case p of Failed err \<Rightarrow> True | _ \<Rightarrow> False)"



text \<open>
  Bookkeeping for the proofs. Every delivery that has left the queue was counted as received,
  and every delivery that is \<open>Done\<close> was counted as unique or as duplicate: the two differences
  below never change. \<open>progress\<close> is how far a delivery has come.
\<close>

definition rcv_balance :: "event_processor \<Rightarrow> system \<Rightarrow> int" where
  "rcv_balance pr s =
     received (heap s ! stats_ref pr) - count_pc (\<lambda>p. p \<noteq> Queued) (tasks s)"

definition out_balance :: "event_processor \<Rightarrow> system \<Rightarrow> int" where
  "out_balance pr s =
     unique_processed (heap s ! stats_ref pr) + duplicate_dropped (heap s ! stats_ref pr)
       - count_pc (\<lambda>p. p = Done) (tasks s)"

definition progress :: "pc \<Rightarrow> nat" where
  "progress p =
     (case p of Queued \<Rightarrow> 0 | AwaitingMark \<Rightarrow> 1 | Done \<Rightarrow> 2 | Failed err \<Rightarrow> 2 | Cancelled \<Rightarrow> 2)"

text \<open>
  The invariant of \<open>k\<close> deliveries of one event on a store that works, with no worker
  cancelled: the unique counter has moved by one exactly when the key is in the table, and
  before that no duplicate was counted.
\<close>

definition same_key_inv :: "event_processor \<Rightarrow> event \<Rightarrow> int \<Rightarrow> int \<Rightarrow> system \<Rightarrow> bool" where
  "same_key_inv pr ev u0 d0 s =
     (stats_ref pr < length (heap s) \<and>
      (\<forall>t \<in> set (tasks s). fst t = ev \<and> \<not> is_Failed (snd t) \<and> snd t \<noteq> Cancelled) \<and>
      (\<exists>rows. files s (db_path (database pr)) = Some rows \<and>
         (if (topic ev, event_id ev) \<in> set rows
          then unique_processed (heap s ! stats_ref pr) = u0 + 1
          else unique_processed (heap s ! stats_ref pr) = u0 \<and>
               duplicate_dropped (heap s ! stats_ref pr) = d0)))"

text \<open>Counter by counter, \<open>x\<close> is at most \<open>y\<close>.\<close>

definition stats_le :: "stats \<Rightarrow> stats \<Rightarrow> bool" where
  "stats_le x y =
     (received x \<le> received y \<and> unique_processed x \<le> unique_processed y \<and>
      duplicate_dropped x \<le> duplicate_dropped y)"

section \<open>Admission (src/main.py)\<close>

text \<open>
  The work queue is an \<open>asyncio.Queue(maxsize=Config.QUEUE_MAX_SIZE)\<close> of Python's standard
  library, modelled from its documentation: \<open>full()\<close> is never true when \<open>maxsize <= 0\<close>;
  \<open>put_nowait\<close> raises \<open>QueueFull\<close> on a full queue; the coroutine \<open>put\<close> waits on a full queue
  until a slot is free and then adds the item. A coroutine that is awaited returns a value,
  raises, or stays suspended: \<open>Waits\<close> is the state in which it stays as long as the queue is
  as it is.
\<close>

record queue =
  maxsize :: int
  items :: "event list"

datatype py_exception = QueueFull | OtherException

datatype 'a awaited = Returns 'a | Throws py_exception | Waits

definition full :: "queue \<Rightarrow> bool" where
  "full q = (if maxsize q \<le> 0 then False else maxsize q \<le> int (length (items q)))"

definition put_nowait :: "queue \<Rightarrow> event \<Rightarrow> py_exception + queue" where
  "put_nowait q ev = (if full q then Inl QueueFull else Inr (q\<lparr>items := items q @ [ev]\<rparr>))"

definition put :: "queue \<Rightarrow> event \<Rightarrow> queue awaited" where
  "put q ev =
     (if full q then Waits
      else (case put_nowait q ev of Inl exc \<Rightarrow> Throws exc | Inr q' \<Rightarrow> Returns q'))"

text \<open>
  \<open>publish_event\<close>: \<open>await event_queue.put(event)\<close>, then the answer \<open>accepted\<close> with the event's
  id and topic; \<open>except asyncio.QueueFull\<close> answers 503 and \<open>except Exception\<close> answers 500.
\<close>

datatype http_response = Accepted string string | HTTPException int

definition publish_event :: "queue \<Rightarrow> event \<Rightarrow> (http_response \<times> queue) awaited" where
  "publish_event q ev =
     (case put q ev of
        Returns q' \<Rightarrow> Returns (Accepted (event_id ev) (topic ev), q')
      | Throws QueueFull \<Rightarrow> Returns (HTTPException 503, q)
      | Throws OtherException \<Rightarrow> Returns (HTTPException 500, q)
      | Waits \<Rightarrow> Waits)"

text \<open>
  \<open>publish_batch\<close>: the loop over \<open>batch.events\<close> with the counters \<open>accepted\<close> and \<open>rejected\<close>;
  only \<open>QueueFull\<close> is caught.
\<close>

record batch_report =
  accepted :: int
  rejected :: int
  total :: int

fun publish_batch_loop :: "queue \<Rightarrow> event list \<Rightarrow> int \<Rightarrow> int \<Rightarrow> (int \<times> int \<times> queue) awaited" where
  "publish_batch_loop q [] acc rej = Returns (acc, rej, q)"
| "publish_batch_loop q (ev # evs) acc rej =
     (case put q ev of
        Returns q' \<Rightarrow> publish_batch_loop q' evs (acc + 1) rej
      | Throws QueueFull \<Rightarrow> publish_batch_loop q evs acc (rej + 1)
      | Throws OtherException \<Rightarrow> Throws OtherException
      | Waits \<Rightarrow> Waits)"

definition publish_batch :: "queue \<Rightarrow> event list \<Rightarrow> (batch_report \<times> queue) awaited" where
  "publish_batch q evs =
     (case publish_batch_loop q evs 0 0 of
        Returns (acc, rej, q') \<Rightarrow>
          Returns (\<lparr>accepted = acc, rejected = rej, total = int (length evs)\<rparr>, q')
      | Throws exc \<Rightarrow> Throws exc
      | Waits \<Rightarrow> Waits)"

section \<open>Event validation (src/models.py)\<close>

text \<open>
  A string is the UTF-8 encoding of the Python \<open>str\<close>, one \<open>char\<close> for each byte, which is also
  how SQLite stores a \<open>TEXT\<close> value. A code point is one byte that is not a continuation byte
  (\<open>0x80\<close> to \<open>0xBF\<close>) followed by its continuation bytes, so \<open>len(v)\<close> counts the bytes that are
  not continuation bytes.

  \<open>str.strip()\<close> removes the white space of \<open>str.isspace\<close> at both ends: the code points
  U+0009 to U+000D, U+001C to U+0020, U+0085, U+00A0, U+1680, U+2000 to U+200A, U+2028,
  U+2029, U+202F, U+205F and U+3000, listed below by their encodings. No encoding in the list
  begins or ends another one, and none ends the encoding of another code point.
  \<open>v.replace('Z', '+00:00')\<close> replaces every occurrence of the character.
\<close>

definition is_continuation :: "char \<Rightarrow> bool" where
  "is_continuation c = (128 \<le> (of_char c :: nat) \<and> (of_char c :: nat) < 192)"

definition py_len :: "string \<Rightarrow> nat" where
  "py_len v = length (filter (\<lambda>c. \<not> is_continuation c) v)"

definition whitespace :: "string list" where
  "whitespace =
     [[CHR 0x09], [CHR 0x0A], [CHR 0x0B], [CHR 0x0C], [CHR 0x0D],
      [CHR 0x1C], [CHR 0x1D], [CHR 0x1E], [CHR 0x1F], [CHR 0x20],
      [CHR 0xC2, CHR 0x85], [CHR 0xC2, CHR 0xA0],
      [CHR 0xE1, CHR 0x9A, CHR 0x80],
      [CHR 0xE2, CHR 0x80, CHR 0x80], [CHR 0xE2, CHR 0x80, CHR 0x81],
      [CHR 0xE2, CHR 0x80, CHR 0x82], [CHR 0xE2, CHR 0x80, CHR 0x83],
      [CHR 0xE2, CHR 0x80, CHR 0x84], [CHR 0xE2, CHR 0x80, CHR 0x85],
      [CHR 0xE2, CHR 0x80, CHR 0x86], [CHR 0xE2, CHR 0x80, CHR 0x87],
      [CHR 0xE2, CHR 0x80, CHR 0x88], [CHR 0xE2, CHR 0x80, CHR 0x89],
      [CHR 0xE2, CHR 0x80, CHR 0x8A],
      [CHR 0xE2, CHR 0x80, CHR 0xA8], [CHR 0xE2, CHR 0x80, CHR 0xA9],
      [CHR 0xE2, CHR 0x80, CHR 0xAF], [CHR 0xE2, CHR 0x81, CHR 0x9F],
      [CHR 0xE3, CHR 0x80, CHR 0x80]]"

text \<open>The number of bytes of the white-space code point that \<open>v\<close> begins with, or 0.\<close>

definition leading :: "string list \<Rightarrow> string \<Rightarrow> nat" where
  "leading ws v =
     (case find (\<lambda>w. take (length w) v = w) ws of None \<Rightarrow> 0 | Some w \<Rightarrow> length w)"

fun lstrip :: "string list \<Rightarrow> string \<Rightarrow> string" where
  "lstrip ws [] = []"
| "lstrip ws (c # cs) =
     (if leading ws (c # cs) = 0 then c # cs
      else lstrip ws (drop (leading ws (c # cs) - 1) cs))"

definition strip :: "string \<Rightarrow> string" where
  "strip v = rev (lstrip (map rev whitespace) (rev (lstrip whitespace v)))"

definition replace_char :: "char \<Rightarrow> string \<Rightarrow> string \<Rightarrow> string" where
  "replace_char old new v = concat (map (\<lambda>c. if c = old then new else [c]) v)"

datatype value_error = ValueError string

text \<open>
  \<open>Event.validate_timestamp\<close>. \<open>datetime.fromisoformat\<close> belongs to Python's standard library;
  the validator takes it as the parameter \<open>parse\<close>, true when the call returns and false
  when it raises \<open>ValueError\<close>.
\<close>

definition validate_timestamp :: "(string \<Rightarrow> bool) \<Rightarrow> string \<Rightarrow> value_error + string" where
  "validate_timestamp parse v =
     (if parse (replace_char (CHR ''Z'') ''+00:00'' v) then Inr v
      else Inl (ValueError ''Timestamp harus dalam format ISO8601''))"

text \<open>\<open>Event.validate_event_id\<close>: \<open>if not v or not v.strip(): raise ValueError(...)\<close>, else \<open>v\<close>.\<close>

definition validate_event_id :: "string \<Rightarrow> value_error + string" where
  "validate_event_id v =
     (if v = [] \<or> strip v = [] then Inl (ValueError ''event_id tidak boleh kosong'')
      else Inr v)"

text \<open>
  The fields of \<open>Event\<close> with their \<open>Field\<close> constraints, followed by the validator where
  the class declares one. Constructing an event collects the errors of all fields and
  fails when there is one; otherwise the event holds what the validators returned.
\<close>

definition topic_field :: "string \<Rightarrow> value_error + string" where
  "topic_field v =
     (if py_len v < 1 then Inl (ValueError ''min_length'')
      else if 255 < py_len v then Inl (ValueError ''max_length'') else Inr v)"

definition event_id_field :: "string \<Rightarrow> value_error + string" where
  "event_id_field v =
     (if py_len v < 1 then Inl (ValueError ''min_length'') else validate_event_id v)"

definition source_field :: "string \<Rightarrow> value_error + string" where
  "source_field v = (if py_len v < 1 then Inl (ValueError ''min_length'') else Inr v)"

definition field_errors :: "value_error + string \<Rightarrow> value_error list" where
  "field_errors r = (case r of Inl err \<Rightarrow> [err] | Inr v \<Rightarrow> [])"

definition new_Event ::
  "(string \<Rightarrow> bool) \<Rightarrow> string \<Rightarrow> string \<Rightarrow> string \<Rightarrow> string \<Rightarrow> (string \<times> string) list
     \<Rightarrow> value_error list + event" where
  "new_Event parse tp eid ts src pl =
     (case (topic_field tp, event_id_field eid, validate_timestamp parse ts,
            source_field src) of
        (Inr tp', Inr eid', Inr ts', Inr src') \<Rightarrow>
          Inr \<lparr>topic = tp', event_id = eid', timestamp = ts', source = src', payload = pl\<rparr>
      | (r1, r2, r3, r4) \<Rightarrow>
          Inl (field_errors r1 @ field_errors r2 @ field_errors r3 @ field_errors r4))"

text \<open>
  For concrete timestamps, the strings \<open>datetime.fromisoformat\<close> accepts according to its
  documentation: \<open>YYYY-MM-DD[*HH[:MM[:SS[.fff[fff]]]][+HH:MM[:SS[.ffffff]]]]\<close>, where \<open>*\<close> is any
  one code point, with the ranges the \<open>datetime\<close> and \<open>timezone\<close> constructors check. Python
  3.11 and later accept further forms; they agree with this format on the timestamps
  evaluated below.
\<close>

definition is_digit :: "char \<Rightarrow> bool" where
  "is_digit c = (48 \<le> (of_char c :: nat) \<and> (of_char c :: nat) \<le> 57)"

definition digits_value :: "string \<Rightarrow> nat option" where
  "digits_value s =
     (if s \<noteq> [] \<and> list_all is_digit s
      then Some (foldl (\<lambda>n c. 10 * n + (of_char c - 48)) 0 s) else None)"

definition two_digits :: "string \<Rightarrow> nat option" where
  "two_digits s = (if length s = 2 then digits_value s else None)"

definition parse_fraction :: "string \<Rightarrow> nat option" where
  "parse_fraction s =
     (if length s = 3 then map_option (\<lambda>n. n * 1000) (digits_value s)
      else if length s = 6 then digits_value s else None)"

definition parse_hh_mm_ss_ff :: "string \<Rightarrow> (nat \<times> nat \<times> nat \<times> nat) option" where
  "parse_hh_mm_ss_ff s =
     (case two_digits (take 2 s) of
        None \<Rightarrow> None
      | Some hh \<Rightarrow>
          if drop 2 s = [] then Some (hh, 0, 0, 0)
          else if hd (drop 2 s) \<noteq> CHR '':'' then None
          else
            (case two_digits (take 2 (drop 3 s)) of
               None \<Rightarrow> None
             | Some mm \<Rightarrow>
                 if drop 5 s = [] then Some (hh, mm, 0, 0)
                 else if hd (drop 5 s) \<noteq> CHR '':'' then None
                 else
                   (case two_digits (take 2 (drop 6 s)) of
                      None \<Rightarrow> None
                    | Some ss \<Rightarrow>
                        if drop 8 s = [] then Some (hh, mm, ss, 0)
                        else if hd (drop 8 s) \<noteq> CHR ''.'' then None
                        else map_option (\<lambda>us. (hh, mm, ss, us)) (parse_fraction (drop 9 s)))))"

definition is_sign :: "char \<Rightarrow> bool" where
  "is_sign c = (c = CHR ''+'' \<or> c = CHR ''-'')"

definition parse_isoformat_time :: "string \<Rightarrow> bool" where
  "parse_isoformat_time tstr =
     (case parse_hh_mm_ss_ff (takeWhile (\<lambda>c. \<not> is_sign c) tstr) of
        None \<Rightarrow> False
      | Some (hh, mm, ss, us) \<Rightarrow>
          hh < 24 \<and> mm < 60 \<and> ss < 60 \<and>
          (case dropWhile (\<lambda>c. \<not> is_sign c) tstr of
             [] \<Rightarrow> True
           | sign # tzstr \<Rightarrow>
               length tzstr \<in> {5, 8, 15} \<and>
               (case parse_hh_mm_ss_ff tzstr of
                  None \<Rightarrow> False
                | Some (th, tm, ts, tus) \<Rightarrow> th * 3600 + tm * 60 + ts < 86400)))"

definition days_in_month :: "nat \<Rightarrow> nat \<Rightarrow> nat" where
  "days_in_month y m =
     (if m = 2 then (if y mod 4 = 0 \<and> (y mod 100 \<noteq> 0 \<or> y mod 400 = 0) then 29 else 28)
      else if m \<in> {4, 6, 9, 11} then 30 else 31)"

definition parse_isoformat_date :: "string \<Rightarrow> bool" where
  "parse_isoformat_date dstr =
     (length dstr = 10 \<and> dstr ! 4 = CHR ''-'' \<and> dstr ! 7 = CHR ''-'' \<and>
      (case (digits_value (take 4 dstr), two_digits (take 2 (drop 5 dstr)),
             two_digits (drop 8 dstr)) of
         (Some y, Some m, Some d) \<Rightarrow>
           1 \<le> y \<and> 1 \<le> m \<and> m \<le> 12 \<and> 1 \<le> d \<and> d \<le> days_in_month y m
       | _ \<Rightarrow> False))"

definition fromisoformat :: "string \<Rightarrow> bool" where
  "fromisoformat s =
     (parse_isoformat_date (take 10 s) \<and>
      (length s = 10 \<or> parse_isoformat_time (dropWhile is_continuation (drop 11 s))))"

text \<open>
  The replacement as the specification words it, for comparison with the validator's: only a
  \<open>Z\<close> at the end of the string is replaced.
\<close>

definition replace_trailing_Z :: "string \<Rightarrow> string" where
  "replace_trailing_Z v = (if v \<noteq> [] \<and> last v = CHR ''Z'' then butlast v @ ''+00:00'' else v)"

section \<open>Example data\<close>

text \<open>
  A store file with an empty table, a processor whose counters are the first object of the
  heap, one event, and the runs that the instances below evaluate: two deliveries of the event
  that both pass the existence check before either marks; one delivery whose existence check
  raises; one delivery whose insert raises; one delivery whose worker is cancelled while it
  awaits \<open>mark_processed\<close>; three
  deliveries of which one completes, one is cancelled and one fails at the check; and one
  delivery, a snapshot of the counters, and a second delivery of the same event.
\<close>

abbreviation dedup_db :: database where
  "dedup_db \<equiv> \<lparr>db_path = ''dedup.db''\<rparr>"

abbreviation new_store :: files where
  "new_store \<equiv> [''dedup.db'' \<mapsto> []]"

abbreviation worker_pool :: event_processor where
  "worker_pool \<equiv> \<lparr>database = dedup_db, stats_ref = 0\<rparr>"

abbreviation counters :: "int \<Rightarrow> int \<Rightarrow> int \<Rightarrow> stats" where
  "counters r u d \<equiv> \<lparr>received = r, unique_processed = u, duplicate_dropped = d\<rparr>"

abbreviation login :: event where
  "login \<equiv> \<lparr>topic = ''user.login'', event_id = ''evt_1'', timestamp = ''2024-01-01T00:00:00Z'',
     source = ''auth-service'', payload = []\<rparr>"

abbreviation race :: system where
  "race \<equiv> run worker_pool
     \<lparr>files = new_store, heap = [counters 0 0 0], tasks = replicate 2 (login, Queued)\<rparr>
     [(0, Resumes Completes), (1, Resumes Completes), (1, Resumes Completes), (0, Resumes Completes)]"

abbreviation check_fails :: system where
  "check_fails \<equiv> run worker_pool
     \<lparr>files = new_store, heap = [counters 0 0 0], tasks = [(login, Queued)]\<rparr> [(0, Resumes Raises)]"

abbreviation mark_fails :: system where
  "mark_fails \<equiv> run worker_pool
     \<lparr>files = new_store, heap = [counters 0 0 0], tasks = replicate 1 (login, Queued)\<rparr>
     [(0, Resumes Completes), (0, Resumes Raises)]"



abbreviation first_delivery :: system where
  "first_delivery \<equiv> run worker_pool
     \<lparr>files = new_store, heap = [counters 0 0 0], tasks = [(login, Queued)]\<rparr>
     [(0, Resumes Completes), (0, Resumes Completes)]"

abbreviation second_delivery :: system where
  "second_delivery \<equiv> run worker_pool
     (first_delivery\<lparr>heap := [counters 1 1 0, counters 1 1 0],
        tasks := tasks first_delivery @ [(login, Queued)]\<rparr>)
     [(1, Resumes Completes)]"

section \<open>Facts about the store\<close>

lemma Database_opened:
  "Database Completes fs0 path = Inr (db, fs) \<Longrightarrow>
     db_path db = path \<and> (\<exists>rows. fs path = Some rows)"
  by (auto simp: Database_def init_db_def create_table_if_not_exists_def split: option.splits)

lemma Database_keeps_rows:
  "fs0 path = Some rows \<Longrightarrow> Database Completes fs0 path = Inr (\<lparr>db_path = path\<rparr>, fs0)"
  by (simp add: Database_def init_db_def create_table_if_not_exists_def)

lemma is_processed_rows:
  "fs (db_path db) = Some rows \<Longrightarrow>
     is_processed Completes fs db tp eid = Inr ((tp, eid) \<in> set rows)"
  by (simp add: is_processed_def select_one_def)

lemma mark_processed_rows:
  "fs (db_path db) = Some rows \<Longrightarrow>
     mark_processed Completes fs db tp eid =
       (if (tp, eid) \<in> set rows then (False, fs)
        else (True, fs(db_path db \<mapsto> rows @ [(tp, eid)])))"
  by (simp add: mark_processed_def insert_or_ignore_def)

lemma mark_processed_True:
  "mark_processed eng fs db tp eid = (True, fs') \<Longrightarrow>
     eng = Completes \<and>
     (\<exists>rows. fs (db_path db) = Some rows \<and> (tp, eid) \<notin> set rows \<and>
        fs' = fs(db_path db \<mapsto> rows @ [(tp, eid)]))"
  by (auto simp: mark_processed_def insert_or_ignore_def
      split: engine.splits option.splits if_splits)

text \<open>
  What \<open>mark_processed\<close> does on an opened store when the engine completes the statement: it
  returns \<open>True\<close> exactly when the pair was absent, the pair is present afterwards, every other
  pair is present afterwards exactly when it was before, and when the pair was present the
  store is unchanged.
\<close>

lemma mark_processed_when_engine_completes:
  assumes "Database Completes fs0 path = Inr (db, fs)"
  shows "fst (mark_processed Completes fs db tp eid) =
           (is_processed Completes fs db tp eid = Inr False) \<and>
         is_processed Completes (snd (mark_processed Completes fs db tp eid)) db tp eid =
           Inr True \<and>
         ((tp', eid') \<noteq> (tp, eid) \<longrightarrow>
            is_processed Completes (snd (mark_processed Completes fs db tp eid)) db tp' eid' =
              is_processed Completes fs db tp' eid') \<and>
         (is_processed Completes fs db tp eid = Inr True \<longrightarrow>
            mark_processed Completes fs db tp eid = (False, fs))"
proof -
  from Database_opened [OF assms] obtain rows where rows: "fs (db_path db) = Some rows"
    by auto
  then show ?thesis
    by (auto simp: mark_processed_def insert_or_ignore_def is_processed_def select_one_def)
qed

text \<open>
  C2. \<open>mark_processed\<close> is to return \<open>False\<close> only for a pair that is already in the store, as
  its docstring says. It also returns \<open>False\<close> for a pair that is absent: on an opened store
  that does not hold the pair, when the insert statement raises, the method returns \<open>False\<close>
  and the pair is still absent after the call.
\<close>

theorem absent_pair_reported_False:
  assumes "Database Completes fs0 path = Inr (db, fs)"
    and "is_processed Completes fs db tp eid = Inr False"
  shows "mark_processed Raises fs db tp eid = (False, fs) \<and>
         is_processed Completes (snd (mark_processed Raises fs db tp eid)) db tp eid =
           Inr False"
  using assms(2) by (simp add: mark_processed_def insert_or_ignore_def)

text \<open>C2 on a new file: the pair is absent before and after, and the answer is \<open>False\<close>.\<close>

theorem absent_pair_reported_False_witness:
  "Database Completes (\<lambda>p. None) ''dedup.db'' = Inr (dedup_db, new_store) \<and>
   is_processed Completes new_store dedup_db ''user.login'' ''evt_1'' = Inr False \<and>
   mark_processed Raises new_store dedup_db ''user.login'' ''evt_1'' = (False, new_store) \<and>
   is_processed Completes (snd (mark_processed Raises new_store dedup_db ''user.login'' ''evt_1''))
     dedup_db ''user.login'' ''evt_1'' = Inr False"
proof -
  have opened: "Database Completes (\<lambda>p. None) ''dedup.db'' = Inr (dedup_db, new_store)"
    by (simp add: Database_def init_db_def create_table_if_not_exists_def)
  have absent: "is_processed Completes new_store dedup_db ''user.login'' ''evt_1'' = Inr False"
    by (simp add: is_processed_def select_one_def)
  from absent_pair_reported_False [OF opened absent] opened absent show ?thesis by blast
qed

text \<open>
  C5. The specification wants a storage fault during \<open>mark_processed\<close> reported to the
  caller. The method catches every exception and returns \<open>False\<close>, the value its docstring
  reserves for a duplicate: whenever the insert statement raises, the caller gets \<open>False\<close>
  and an unchanged store.
\<close>

theorem mark_processed_fault_returns_False:
  "insert_or_ignore eng fs (db_path db) tp eid = Inl err \<Longrightarrow>
     mark_processed eng fs db tp eid = (False, fs)"
  by (simp add: mark_processed_def)

text \<open>C5 at a concrete store: the engine raises while the key is absent.\<close>

theorem mark_processed_fault_returns_False_witness:
  "insert_or_ignore Raises [''dedup.db'' \<mapsto> []] ''dedup.db'' ''t'' ''e'' = Inl StorageFault \<and>
   mark_processed Raises [''dedup.db'' \<mapsto> []] \<lparr>db_path = ''dedup.db''\<rparr> ''t'' ''e'' =
     (False, [''dedup.db'' \<mapsto> []])"
proof -
  have fault: "insert_or_ignore Raises [''dedup.db'' \<mapsto> []]
      (db_path \<lparr>db_path = ''dedup.db''\<rparr>) ''t'' ''e'' = Inl StorageFault"
    by (simp add: insert_or_ignore_def)
  from mark_processed_fault_returns_False [OF fault] fault show ?thesis by simp
qed

text \<open>
  C7. Once \<open>mark_processed\<close> has returned \<open>True\<close> for a pair, a new \<open>Database\<close> over the same
  path keeps the file as it is, \<open>is_processed\<close> on the pair returns \<open>True\<close>, and a further
  \<open>mark_processed\<close> on the pair returns \<open>False\<close>, whatever the engine does.
\<close>

theorem marked_pair_survives_reopen:
  assumes "mark_processed eng fs db tp eid = (True, fs')"
  shows "Database Completes fs' (db_path db) = Inr (\<lparr>db_path = db_path db\<rparr>, fs') \<and>
         is_processed Completes fs' \<lparr>db_path = db_path db\<rparr> tp eid = Inr True \<and>
         fst (mark_processed eng' fs' \<lparr>db_path = db_path db\<rparr> tp eid) = False"
proof -
  from mark_processed_True [OF assms] obtain rows where
    fs': "fs' = fs(db_path db \<mapsto> rows @ [(tp, eid)])"
    by auto
  then have rows': "fs' (db_path db) = Some (rows @ [(tp, eid)])" by simp
  from Database_keeps_rows [of fs' "db_path db", OF rows']
  have "Database Completes fs' (db_path db) = Inr (\<lparr>db_path = db_path db\<rparr>, fs')" .
  moreover from rows'
  have "is_processed Completes fs' \<lparr>db_path = db_path db\<rparr> tp eid = Inr True"
    by (simp add: is_processed_def select_one_def)
  moreover from rows'
  have "fst (mark_processed eng' fs' \<lparr>db_path = db_path db\<rparr> tp eid) = False"
    by (cases eng') (simp_all add: mark_processed_def insert_or_ignore_def)
  ultimately show ?thesis by simp
qed

text \<open>C7 on a new file: mark, reopen, check, mark again.\<close>

theorem marked_pair_survives_reopen_witness:
  "mark_processed Completes [''dedup.db'' \<mapsto> []] \<lparr>db_path = ''dedup.db''\<rparr> ''t'' ''e'' =
     (True, [''dedup.db'' \<mapsto> [(''t'', ''e'')]]) \<and>
   Database Completes [''dedup.db'' \<mapsto> [(''t'', ''e'')]] ''dedup.db'' =
     Inr (\<lparr>db_path = ''dedup.db''\<rparr>, [''dedup.db'' \<mapsto> [(''t'', ''e'')]]) \<and>
   is_processed Completes [''dedup.db'' \<mapsto> [(''t'', ''e'')]] \<lparr>db_path = ''dedup.db''\<rparr>
     ''t'' ''e'' = Inr True \<and>
   fst (mark_processed Completes [''dedup.db'' \<mapsto> [(''t'', ''e'')]]
     \<lparr>db_path = ''dedup.db''\<rparr> ''t'' ''e'') = False"
proof -
  have marked: "mark_processed Completes [''dedup.db'' \<mapsto> []] \<lparr>db_path = ''dedup.db''\<rparr>
      ''t'' ''e'' = (True, [''dedup.db'' \<mapsto> [(''t'', ''e'')]])"
    by (simp add: mark_processed_def insert_or_ignore_def)
  from marked_pair_survives_reopen [OF marked, of Completes] marked show ?thesis by simp
qed

text \<open>
  Deduplication is per topic when the engine completes both statements: with neither
  \<open>(t1, eid)\<close> nor \<open>(t2, eid)\<close> in the store and distinct topics, \<open>mark_processed\<close> returns \<open>True\<close>
  for the first pair and, on the store it leaves, \<open>True\<close> for the second, and afterwards
  \<open>is_processed\<close> returns \<open>True\<close> for both.
\<close>

lemma two_topics_when_engine_completes:
  assumes "is_processed Completes fs db t1 eid = Inr False"
    and "is_processed Completes fs db t2 eid = Inr False"
    and "t1 \<noteq> t2"
    and "mark_processed Completes fs db t1 eid = (r1, fs1)"
    and "mark_processed Completes fs1 db t2 eid = (r2, fs2)"
  shows "r1 \<and> r2 \<and> is_processed Completes fs2 db t1 eid = Inr True \<and>
         is_processed Completes fs2 db t2 eid = Inr True"
proof -
  from assms(1,2) obtain rows where
    "fs (db_path db) = Some rows" "(t1, eid) \<notin> set rows" "(t2, eid) \<notin> set rows"
    by (auto simp: is_processed_def select_one_def split: option.splits if_splits)
  with assms(3,4,5) show ?thesis
    by (auto simp: mark_processed_def insert_or_ignore_def is_processed_def select_one_def)
qed

text \<open>
  C8. The same \<open>event_id\<close> on a second topic is to be marked as new. With neither pair in
  the store and distinct topics, the first pair is marked and the second is still absent;
  when the insert statement for the second then raises, \<open>mark_processed\<close> returns \<open>False\<close> for
  it, the answer for a duplicate, although the pair is new.
\<close>

theorem new_topic_reported_False:
  assumes "is_processed Completes fs db t1 eid = Inr False"
    and "is_processed Completes fs db t2 eid = Inr False"
    and "t1 \<noteq> t2"
  shows "fst (mark_processed Completes fs db t1 eid) \<and>
         is_processed Completes (snd (mark_processed Completes fs db t1 eid)) db t2 eid =
           Inr False \<and>
         fst (mark_processed Raises (snd (mark_processed Completes fs db t1 eid)) db t2 eid) =
           False"
proof -
  from assms(1,2) obtain rows where
    "fs (db_path db) = Some rows" "(t1, eid) \<notin> set rows" "(t2, eid) \<notin> set rows"
    by (auto simp: is_processed_def select_one_def split: option.splits if_splits)
  with assms(3) show ?thesis
    by (simp add: mark_processed_def insert_or_ignore_def is_processed_def select_one_def)
qed

text \<open>C8 with the topics of the repository's test.\<close>

theorem new_topic_reported_False_witness:
  "is_processed Completes new_store dedup_db ''topic.one'' ''same_id'' = Inr False \<and>
   is_processed Completes new_store dedup_db ''topic.two'' ''same_id'' = Inr False \<and>
   ''topic.one'' \<noteq> ''topic.two'' \<and>
   mark_processed Completes new_store dedup_db ''topic.one'' ''same_id'' =
     (True, [''dedup.db'' \<mapsto> [(''topic.one'', ''same_id'')]]) \<and>
   mark_processed Raises [''dedup.db'' \<mapsto> [(''topic.one'', ''same_id'')]] dedup_db
     ''topic.two'' ''same_id'' = (False, [''dedup.db'' \<mapsto> [(''topic.one'', ''same_id'')]])"
proof -
  have a1: "is_processed Completes new_store dedup_db ''topic.one'' ''same_id'' = Inr False"
    by (simp add: is_processed_def select_one_def)
  have a2: "is_processed Completes new_store dedup_db ''topic.two'' ''same_id'' = Inr False"
    by (simp add: is_processed_def select_one_def)
  have ne: "''topic.one'' \<noteq> ''topic.two''" by simp
  have m1: "mark_processed Completes new_store dedup_db ''topic.one'' ''same_id'' =
      (True, [''dedup.db'' \<mapsto> [(''topic.one'', ''same_id'')]])"
    by (simp add: mark_processed_def insert_or_ignore_def)
  have m2: "mark_processed Raises [''dedup.db'' \<mapsto> [(''topic.one'', ''same_id'')]] dedup_db
      ''topic.two'' ''same_id'' = (False, [''dedup.db'' \<mapsto> [(''topic.one'', ''same_id'')]])"
    using new_topic_reported_False [OF a1 a2 ne]
    by (simp add: mark_processed_def insert_or_ignore_def)
  from a1 a2 ne m1 m2 show ?thesis by blast
qed

section \<open>Facts about the worker protocol\<close>

lemmas step_defs = step_def step_check_def step_mark_def cancelled_at_check_def cancelled_at_mark_def

lemma incr_received_nth [simp]:
  "a < length h \<Longrightarrow> incr_received h a ! b =
     (if b = a then (h ! a)\<lparr>received := received (h ! a) + 1\<rparr> else h ! b)"
  by (simp add: incr_received_def)

lemma incr_unique_processed_nth [simp]:
  "a < length h \<Longrightarrow> incr_unique_processed h a ! b =
     (if b = a then (h ! a)\<lparr>unique_processed := unique_processed (h ! a) + 1\<rparr> else h ! b)"
  by (simp add: incr_unique_processed_def)

lemma incr_duplicate_dropped_nth [simp]:
  "a < length h \<Longrightarrow> incr_duplicate_dropped h a ! b =
     (if b = a then (h ! a)\<lparr>duplicate_dropped := duplicate_dropped (h ! a) + 1\<rparr> else h ! b)"
  by (simp add: incr_duplicate_dropped_def)

lemma length_incr [simp]:
  "length (incr_received h a) = length h"
  "length (incr_unique_processed h a) = length h"
  "length (incr_duplicate_dropped h a) = length h"
  by (simp_all add: incr_received_def incr_unique_processed_def incr_duplicate_dropped_def)

lemma count_pc_Nil [simp]: "count_pc P [] = 0"
  by (simp add: count_pc_def)

lemma count_pc_Cons [simp]:
  "count_pc P (t # ts) = (if P (snd t) then 1 else 0) + count_pc P ts"
  by (simp add: count_pc_def)

lemma count_pc_update:
  "i < length ts \<Longrightarrow>
     count_pc P (ts[i := (ev, p)]) =
       count_pc P ts - (if P (snd (ts ! i)) then 1 else 0) + (if P p then 1 else 0)"
proof (induction ts arbitrary: i)
  case Nil
  then show ?case by simp
next
  case (Cons t ts)
  show ?case
  proof (cases i)
    case 0
    then show ?thesis by simp
  next
    case (Suc j)
    with Cons.prems have "j < length ts" by simp
    from Cons.IH [OF this] Suc show ?thesis
      by simp
  qed
qed

lemma step_length_heap [simp]: "length (heap (step pr s ie)) = length (heap s)"
  by (auto simp: step_defs process_event_check_def process_event_mark_def
      split: prod.splits pc.splits sum.splits if_splits wakeup.splits)

lemma step_length_tasks [simp]: "length (tasks (step pr s ie)) = length (tasks s)"
  by (auto simp: step_defs process_event_check_def process_event_mark_def
      split: prod.splits pc.splits sum.splits if_splits wakeup.splits)

lemma step_balance:
  assumes "stats_ref pr < length (heap s)"
  shows "rcv_balance pr (step pr s ie) = rcv_balance pr s \<and>
         out_balance pr (step pr s ie) = out_balance pr s"
  using assms
  by (auto simp: step_defs process_event_check_def process_event_mark_def
      rcv_balance_def out_balance_def count_pc_update
      split: prod.splits pc.splits sum.splits if_splits wakeup.splits)

lemma run_length_heap [simp]: "length (heap (run pr s sched)) = length (heap s)"
  by (induction sched arbitrary: s) simp_all

lemma run_length_tasks [simp]: "length (tasks (run pr s sched)) = length (tasks s)"
  by (induction sched arbitrary: s) simp_all

lemma run_balance:
  "stats_ref pr < length (heap s) \<Longrightarrow>
     rcv_balance pr (run pr s sched) = rcv_balance pr s \<and>
     out_balance pr (run pr s sched) = out_balance pr s"
  by (induction sched arbitrary: s) (simp_all add: step_balance)


lemma count_pc_Queued [simp]:
  "count_pc (\<lambda>p. p \<noteq> Queued) (map (\<lambda>ev. (ev, Queued)) evs) = 0"
  "count_pc (\<lambda>p. p = Done) (map (\<lambda>ev. (ev, Queued)) evs) = 0"
  by (induction evs) simp_all

lemma EventProcessor_fresh:
  "EventProcessor h0 db = (pr, h) \<Longrightarrow>
     stats_ref pr = length h0 \<and> database pr = db \<and> h = h0 @ [\<lparr>received = 0, unique_processed = 0, duplicate_dropped = 0\<rparr>]"
  by (auto simp: EventProcessor_def alloc_def)




text \<open>
  C6. The specification wants neither counter incremented when \<open>mark_processed\<close> meets a
  storage fault. As \<open>mark_processed\<close> turns the fault into \<open>False\<close>, \<open>_process_event\<close> takes
  the branch of the lost race: whenever the existence check answers \<open>False\<close> and the insert
  statement then raises, the event is counted as received and as a duplicate, and the
  store is unchanged.
\<close>

theorem mark_fault_counted_as_duplicate:
  assumes "is_processed eng1 fs (database pr) (topic ev) (event_id ev) = Inr False"
    and "insert_or_ignore eng2 fs (db_path (database pr)) (topic ev) (event_id ev) = Inl err"
    and "stats_ref pr < length h"
  shows "process_event eng1 eng2 pr fs h ev =
           (Done, fs, h[stats_ref pr := (h ! stats_ref pr)
              \<lparr>received := received (h ! stats_ref pr) + 1,
               duplicate_dropped := duplicate_dropped (h ! stats_ref pr) + 1\<rparr>])"
  using assms
  by (simp add: process_event_def process_event_check_def process_event_mark_def
      mark_processed_def incr_received_def incr_duplicate_dropped_def)

text \<open>C6 on a new store: the event was never marked and is counted as a duplicate.\<close>

theorem mark_fault_counted_as_duplicate_witness:
  "is_processed Completes new_store dedup_db ''user.login'' ''evt_1'' = Inr False \<and>
   insert_or_ignore Raises new_store ''dedup.db'' ''user.login'' ''evt_1'' = Inl StorageFault \<and>
   process_event Completes Raises worker_pool new_store [counters 0 0 0] login =
     (Done, new_store, [counters 1 0 1])"
proof -
  have absent: "is_processed Completes new_store (database worker_pool) (topic login)
      (event_id login) = Inr False"
    by (simp add: is_processed_def select_one_def)
  have fault: "insert_or_ignore Raises new_store (db_path (database worker_pool)) (topic login)
      (event_id login) = Inl StorageFault"
    by (simp add: insert_or_ignore_def)
  have a: "stats_ref worker_pool < length [counters 0 0 0]" by simp
  from mark_fault_counted_as_duplicate [OF absent fault a] absent fault
  show ?thesis by simp
qed

lemma step_other:
  "j \<noteq> i \<Longrightarrow> tasks (step pr s (i, eng)) ! j = tasks s ! j"
  by (auto simp: step_defs split: prod.splits pc.splits wakeup.splits)

lemma step_progress_mono:
  "progress (snd (tasks s ! j)) \<le> progress (snd (tasks (step pr s (i, eng)) ! j))"
proof (cases "j = i")
  case False
  then show ?thesis by (simp add: step_other)
next
  case True
  then show ?thesis
    by (auto simp: step_defs progress_def process_event_check_def process_event_mark_def
        split: prod.splits pc.splits sum.splits if_splits wakeup.splits)
qed

lemma step_progress_self:
  "i < length (tasks s) \<Longrightarrow>
     min 2 (Suc (progress (snd (tasks s ! i)))) \<le> progress (snd (tasks (step pr s (i, eng)) ! i))"
  by (auto simp: step_defs progress_def process_event_check_def process_event_mark_def
      split: prod.splits pc.splits sum.splits if_splits wakeup.splits)

lemma run_progress:
  "j < length (tasks s) \<Longrightarrow>
     min 2 (progress (snd (tasks s ! j)) + count_list (map fst sched) j)
       \<le> progress (snd (tasks (run pr s sched) ! j))"
proof (induction sched arbitrary: s)
  case Nil
  then show ?case by simp
next
  case (Cons ie sched)
  obtain i eng where ie: "ie = (i, eng)" by (cases ie)
  from Cons.prems have len: "j < length (tasks (step pr s ie))" by simp
  note IH = Cons.IH [OF len]
  show ?case
  proof (cases "i = j")
    case True
    from step_progress_self [of j s pr eng] Cons.prems
    have "min 2 (Suc (progress (snd (tasks s ! j)))) \<le> progress (snd (tasks (step pr s ie) ! j))"
      using ie True by simp
    with IH ie True show ?thesis by simp
  next
    case False
    from step_progress_mono [of s j pr i eng] ie
    have "progress (snd (tasks s ! j)) \<le> progress (snd (tasks (step pr s ie) ! j))" by simp
    with IH ie False show ?thesis by simp
  qed
qed

lemma set_update_tasks:
  "t \<in> set (ts[i := x]) \<Longrightarrow> t = x \<or> t \<in> set ts"
  using set_update_subset_insert [of ts i x] by auto

lemma step_same_key_inv:
  assumes "same_key_inv pr ev u0 d0 s"
  shows "same_key_inv pr ev u0 d0 (step pr s (i, Resumes Completes))"
proof (cases "i < length (tasks s)")
  case False
  with assms show ?thesis by (simp add: step_defs)
next
  case True
  from assms obtain rows where
    a: "stats_ref pr < length (heap s)"
    and ts: "\<forall>t \<in> set (tasks s). fst t = ev \<and> \<not> is_Failed (snd t) \<and> snd t \<noteq> Cancelled"
    and rows: "files s (db_path (database pr)) = Some rows"
    and cnt: "if (topic ev, event_id ev) \<in> set rows
          then unique_processed (heap s ! stats_ref pr) = u0 + 1
          else unique_processed (heap s ! stats_ref pr) = u0 \<and>
               duplicate_dropped (heap s ! stats_ref pr) = d0"
    by (auto simp: same_key_inv_def)
  from True ts have ti: "fst (tasks s ! i) = ev" "\<not> is_Failed (snd (tasks s ! i))"
    by (simp_all add: nth_mem)
  obtain p where p: "tasks s ! i = (ev, p)" using ti by (cases "tasks s ! i") simp
  show ?thesis
  proof (cases p)
    case Queued
    with True p a ts rows cnt show ?thesis
      by (auto simp: same_key_inv_def step_defs process_event_check_def is_processed_def
          select_one_def is_Failed_def dest!: set_update_tasks)
  next
    case AwaitingMark
    with True p a ts rows cnt show ?thesis
      by (auto simp: same_key_inv_def step_defs process_event_mark_def mark_processed_def
          insert_or_ignore_def is_Failed_def dest!: set_update_tasks)
  next
    case Done
    with True p assms show ?thesis by (simp add: step_defs)
  next
    case (Failed err)
    with True p assms show ?thesis by (simp add: step_defs)
  next
    case Cancelled
    with True p assms show ?thesis by (simp add: step_defs)
  qed
qed

lemma run_same_key_inv:
  "same_key_inv pr ev u0 d0 s \<Longrightarrow> list_all (\<lambda>ie. snd ie = Resumes Completes) sched \<Longrightarrow>
     same_key_inv pr ev u0 d0 (run pr s sched)"
proof (induction sched arbitrary: s)
  case Nil
  then show ?case by simp
next
  case (Cons ie sched)
  obtain i where "ie = (i, Resumes Completes)" using Cons.prems(2) by (cases ie) simp
  with Cons show ?case by (simp add: step_same_key_inv)
qed

lemma count_pc_replicate_Queued [simp]:
  "count_pc (\<lambda>p. p \<noteq> Queued) (replicate k (ev, Queued)) = 0"
  "count_pc (\<lambda>p. p = Done) (replicate k (ev, Queued)) = 0"
  by (induction k) simp_all

lemma count_pc_all_Done:
  "list_all (\<lambda>t. snd t = Done) ts \<Longrightarrow>
     count_pc (\<lambda>p. p = Done) ts = int (length ts) \<and>
     count_pc (\<lambda>p. p \<noteq> Queued) ts = int (length ts)"
  by (induction ts) simp_all

lemma progress_2: "2 \<le> progress p \<Longrightarrow> \<not> is_Failed p \<Longrightarrow> p \<noteq> Cancelled \<Longrightarrow> p = Done"
  by (cases p) (simp_all add: progress_def is_Failed_def)

text \<open>
  C1, as the code has it by design. One event is delivered \<open>k\<close> times (\<open>k \<ge> 1\<close>) to a store
  that does not hold its key, the engine completes every statement, and no worker is
  cancelled. The deliveries run in any interleaving: the schedule is arbitrary, as long as
  each delivery gets the two steps it needs. Then every delivery finishes, \<open>received\<close> has
  grown by \<open>k\<close>, \<open>unique_processed\<close> by exactly 1 and \<open>duplicate_dropped\<close> by \<open>k - 1\<close>.
\<close>

theorem same_key_counted_once:
  assumes absent: "is_processed Completes fs (database pr) (topic ev) (event_id ev) = Inr False"
    and a: "stats_ref pr < length h"
    and k: "1 \<le> k"
    and ok: "list_all (\<lambda>ie. snd ie = Resumes Completes) sched"
    and fair: "\<forall>i<k. 2 \<le> count_list (map fst sched) i"
    and s: "s = run pr \<lparr>files = fs, heap = h, tasks = replicate k (ev, Queued)\<rparr> sched"
  shows "list_all (\<lambda>t. snd t = Done) (tasks s) \<and>
         received (heap s ! stats_ref pr) = received (h ! stats_ref pr) + int k \<and>
         unique_processed (heap s ! stats_ref pr) = unique_processed (h ! stats_ref pr) + 1 \<and>
         duplicate_dropped (heap s ! stats_ref pr) =
           duplicate_dropped (h ! stats_ref pr) + int k - 1"
proof -
  let ?s0 = "\<lparr>files = fs, heap = h, tasks = replicate k (ev, Queued)\<rparr>"
  let ?u0 = "unique_processed (h ! stats_ref pr)"
  let ?d0 = "duplicate_dropped (h ! stats_ref pr)"
  from absent obtain rows where
    rows: "fs (db_path (database pr)) = Some rows" "(topic ev, event_id ev) \<notin> set rows"
    by (auto simp: is_processed_def select_one_def split: option.splits if_splits)
  with a have "same_key_inv pr ev ?u0 ?d0 ?s0"
    by (simp add: same_key_inv_def is_Failed_def)
  from run_same_key_inv [OF this ok] s have inv: "same_key_inv pr ev ?u0 ?d0 s" by simp
  have len: "length (tasks s) = k" using s by simp
  have fin: "list_all (\<lambda>t. snd t = Done) (tasks s)"
    unfolding list_all_length
  proof (intro allI impI)
    fix j assume j: "j < length (tasks s)"
    with len fair have "2 \<le> count_list (map fst sched) j" by simp
    moreover from j len have j0: "j < length (tasks ?s0)" by simp
    from run_progress [OF j0, of sched pr] s
    have "min 2 (count_list (map fst sched) j) \<le> progress (snd (tasks s ! j))"
      using j len by (simp add: progress_def)
    ultimately have "2 \<le> progress (snd (tasks s ! j))" by simp
    moreover from inv j have "\<not> is_Failed (snd (tasks s ! j))"
      by (simp add: same_key_inv_def)
    moreover from inv j have "snd (tasks s ! j) \<noteq> Cancelled"
      by (simp add: same_key_inv_def)
    ultimately show "snd (tasks s ! j) = Done" by (rule progress_2)
  qed
  from a have "stats_ref pr < length (heap ?s0)" by simp
  from run_balance [OF this, of sched] s
  have "rcv_balance pr s = rcv_balance pr ?s0" "out_balance pr s = out_balance pr ?s0"
    by simp_all
  with count_pc_all_Done [OF fin] len
  have rcv: "received (heap s ! stats_ref pr) = received (h ! stats_ref pr) + int k"
    and out: "unique_processed (heap s ! stats_ref pr) + duplicate_dropped (heap s ! stats_ref pr)
        = ?u0 + ?d0 + int k"
    by (simp_all add: rcv_balance_def out_balance_def)
  from inv obtain rows' where
    "if (topic ev, event_id ev) \<in> set rows'
     then unique_processed (heap s ! stats_ref pr) = ?u0 + 1
     else unique_processed (heap s ! stats_ref pr) = ?u0 \<and>
          duplicate_dropped (heap s ! stats_ref pr) = ?d0"
    by (auto simp: same_key_inv_def)
  with out k have
    "unique_processed (heap s ! stats_ref pr) = ?u0 + 1"
    "duplicate_dropped (heap s ! stats_ref pr) = ?d0 + int k - 1"
    by (auto split: if_splits)
  with fin rcv show ?thesis by simp
qed

text \<open>
  C1 as the specification states it, for every store that does not hold the key, fails
  at \<open>k = 1\<close> when the engine raises. When the existence check raises, the delivery leaves
  \<open>_process_event\<close> counted as received only: \<open>unique_processed\<close> stays 0. When the check
  answers \<open>False\<close> and the insert raises, the delivery completes counted as a duplicate, and
  the key is still not in the store (the defect of C5 and C6).
\<close>

theorem same_key_counted_once_counterexample:
  "is_processed Completes new_store dedup_db ''user.login'' ''evt_1'' = Inr False \<and>
   tasks check_fails = [(login, Failed StorageFault)] \<and>
   heap check_fails ! 0 = counters 1 0 0 \<and>
   tasks mark_fails = [(login, Done)] \<and>
   heap mark_fails ! 0 = counters 1 0 1 \<and>
   is_processed Completes (files mark_fails) dedup_db ''user.login'' ''evt_1'' = Inr False"
  by (simp add: step_defs process_event_check_def process_event_mark_def is_processed_def
      select_one_def mark_processed_def insert_or_ignore_def incr_received_def
      incr_duplicate_dropped_def)

text \<open>
  C1 at the race the protocol is written for: both deliveries pass the existence check, then
  both call \<open>mark_processed\<close>; one is counted as unique and the other as duplicate.
\<close>

theorem same_key_counted_once_witness:
  "is_processed Completes new_store dedup_db ''user.login'' ''evt_1'' = Inr False \<and>
   list_all (\<lambda>t. snd t = Done) (tasks race) \<and>
   heap race ! 0 = counters 2 1 1"
proof -
  let ?sched = "[(0, Resumes Completes), (1, Resumes Completes), (1, Resumes Completes), (0, Resumes Completes)] :: (nat \<times> wakeup) list"
  have absent: "is_processed Completes new_store (database worker_pool) (topic login)
      (event_id login) = Inr False"
    by (simp add: is_processed_def select_one_def)
  have a: "stats_ref worker_pool < length [counters 0 0 0]" by simp
  have k: "1 \<le> (2::nat)" by simp
  have ok: "list_all (\<lambda>ie. snd ie = Resumes Completes) ?sched" by simp
  have fair: "\<forall>i<2. 2 \<le> count_list (map fst ?sched) i"
    by (auto simp: less_2_cases_iff)
  from same_key_counted_once [OF absent a k ok fair refl] absent
  show ?thesis
    by (simp add: stats.equality)
qed

lemma stats_le_refl [simp]: "stats_le x x"
  by (simp add: stats_le_def)

lemma stats_le_trans: "stats_le x y \<Longrightarrow> stats_le y z \<Longrightarrow> stats_le x z"
  by (auto simp: stats_le_def)

lemma incr_other:
  "b \<noteq> a \<Longrightarrow> incr_received h a ! b = h ! b"
  "b \<noteq> a \<Longrightarrow> incr_unique_processed h a ! b = h ! b"
  "b \<noteq> a \<Longrightarrow> incr_duplicate_dropped h a ! b = h ! b"
  by (simp_all add: incr_received_def incr_unique_processed_def incr_duplicate_dropped_def)

lemma incr_received_le: "stats_le (h ! a) (incr_received h a ! a)"
  by (cases "a < length h") (simp_all add: stats_le_def incr_received_def list_update_beyond)

lemma incr_unique_processed_le: "stats_le (h ! a) (incr_unique_processed h a ! a)"
  by (cases "a < length h") (simp_all add: stats_le_def incr_unique_processed_def list_update_beyond)

lemma incr_duplicate_dropped_le: "stats_le (h ! a) (incr_duplicate_dropped h a ! a)"
  by (cases "a < length h") (simp_all add: stats_le_def incr_duplicate_dropped_def list_update_beyond)

lemma process_event_check_le:
  "stats_le (h ! stats_ref pr) (snd (process_event_check eng pr fs h ev) ! stats_ref pr)"
  by (auto simp: process_event_check_def split: sum.splits
      intro: incr_received_le stats_le_trans [OF incr_received_le incr_duplicate_dropped_le])

lemma process_event_mark_le:
  "stats_le (h ! stats_ref pr) (snd (snd (process_event_mark eng pr fs h ev)) ! stats_ref pr)"
  by (auto simp: process_event_mark_def split: prod.splits
      intro: incr_unique_processed_le incr_duplicate_dropped_le)

lemma step_heap_other:
  "b \<noteq> stats_ref pr \<Longrightarrow> heap (step pr s ie) ! b = heap s ! b"
  by (auto simp: step_defs process_event_check_def process_event_mark_def incr_other
      split: prod.splits pc.splits sum.splits if_splits wakeup.splits)

lemma step_check_le:
  "stats_le (heap s ! stats_ref pr) (snd (step_check pr s ev w) ! stats_ref pr)"
  by (cases w)
    (simp_all add: step_check_def cancelled_at_check_def process_event_check_le incr_received_le)

lemma step_mark_le:
  "stats_le (heap s ! stats_ref pr) (snd (snd (step_mark pr s ev w)) ! stats_ref pr)"
  by (cases w) (simp_all add: step_mark_def process_event_mark_le split: prod.splits)

lemma step_stats_le:
  "stats_le (heap s ! stats_ref pr) (heap (step pr s iw) ! stats_ref pr)"
proof (cases iw)
  case (Pair i w)
  show ?thesis
  proof (cases "i < length (tasks s)")
    case False
    with Pair show ?thesis by (simp add: step_def)
  next
    case True
    obtain ev p where t: "tasks s ! i = (ev, p)" by (cases "tasks s ! i")
    show ?thesis
    proof (cases p)
      case Queued
      with Pair True t step_check_le [of s pr ev w]
      show ?thesis by (auto simp: step_def split: prod.splits)
    next
      case AwaitingMark
      with Pair True t step_mark_le [of s pr ev w]
      show ?thesis by (auto simp: step_def split: prod.splits)
    next
      case Done
      with Pair True t show ?thesis by (simp add: step_def)
    next
      case (Failed err)
      with Pair True t show ?thesis by (simp add: step_def)
    next
      case Cancelled
      with Pair True t show ?thesis by (simp add: step_def)
    qed
  qed
qed

lemma run_heap_other:
  "b \<noteq> stats_ref pr \<Longrightarrow> heap (run pr s sched) ! b = heap s ! b"
  by (induction sched arbitrary: s) (simp_all add: step_heap_other)

lemma run_stats_le:
  "stats_le (heap s ! stats_ref pr) (heap (run pr s sched) ! stats_ref pr)"
proof (induction sched arbitrary: s)
  case Nil
  show ?case by simp
next
  case (Cons ie sched)
  from stats_le_trans [OF step_stats_le Cons.IH] show ?case by simp
qed

text \<open>
  C9. \<open>get_stats\<close> returns a new dict, not the processor's own: it holds the counters as they
  are at the call and still holds these values after any later steps, also on events queued
  later. The counters of a processor start at 0, so they are never negative, and no step
  of the protocol decreases one.
\<close>

theorem get_stats_snapshot:
  assumes new: "EventProcessor h0 db = (pr, h)"
    and s1: "s1 = run pr \<lparr>files = fs, heap = h, tasks = ts\<rparr> sched1"
    and snap: "get_stats (heap s1) pr = (b, h2)"
    and s2: "s2 = run pr (s1\<lparr>heap := h2, tasks := tasks s1 @ later_tasks\<rparr>) sched2"
  shows "b \<noteq> stats_ref pr \<and>
         h2 ! b = heap s1 ! stats_ref pr \<and>
         heap s2 ! b = heap s1 ! stats_ref pr \<and>
         stats_le \<lparr>received = 0, unique_processed = 0, duplicate_dropped = 0\<rparr>
           (heap s1 ! stats_ref pr) \<and>
         stats_le (heap s1 ! stats_ref pr) (heap s2 ! stats_ref pr)"
proof -
  from EventProcessor_fresh [OF new]
  have a: "stats_ref pr = length h0"
    and h: "h = h0 @ [\<lparr>received = 0, unique_processed = 0, duplicate_dropped = 0\<rparr>]"
    by simp_all
  from s1 h have len1: "length (heap s1) = Suc (length h0)" by simp
  from snap have b: "b = length (heap s1)" and h2: "h2 = heap s1 @ [heap s1 ! stats_ref pr]"
    by (auto simp: get_stats_def alloc_def)
  from a b len1 have ne: "b \<noteq> stats_ref pr" by simp
  from b h2 have copy: "h2 ! b = heap s1 ! stats_ref pr" by simp
  from run_heap_other [OF ne] s2 copy
  have later: "heap s2 ! b = heap s1 ! stats_ref pr" by simp
  from a h have "h ! stats_ref pr = \<lparr>received = 0, unique_processed = 0, duplicate_dropped = 0\<rparr>"
    by simp
  with run_stats_le [of "\<lparr>files = fs, heap = h, tasks = ts\<rparr>" pr sched1] s1
  have nonneg: "stats_le \<lparr>received = 0, unique_processed = 0, duplicate_dropped = 0\<rparr>
      (heap s1 ! stats_ref pr)" by simp
  from a len1 h2 have "h2 ! stats_ref pr = heap s1 ! stats_ref pr"
    by (simp add: nth_append)
  with run_stats_le [of "s1\<lparr>heap := h2, tasks := tasks s1 @ later_tasks\<rparr>" pr sched2] s2
  have "stats_le (heap s1 ! stats_ref pr) (heap s2 ! stats_ref pr)" by simp
  with ne copy later nonneg show ?thesis by simp
qed

text \<open>
  C9 on a run: after the first delivery the snapshot holds 1, 1, 0; after a second delivery
  of the same event the processor's counters are 2, 1, 1 and the snapshot is as it was.
\<close>

theorem get_stats_snapshot_witness:
  "EventProcessor [] dedup_db = (worker_pool, [counters 0 0 0]) \<and>
   get_stats (heap first_delivery) worker_pool = (1, [counters 1 1 0, counters 1 1 0]) \<and>
   heap second_delivery ! 1 = counters 1 1 0 \<and>
   heap second_delivery ! 0 = counters 2 1 1"
proof -
  have new: "EventProcessor [] dedup_db = (worker_pool, [counters 0 0 0])"
    by (simp add: EventProcessor_def alloc_def)
  have first: "first_delivery =
      \<lparr>files = [''dedup.db'' \<mapsto> [(''user.login'', ''evt_1'')]], heap = [counters 1 1 0],
       tasks = [(login, Done)]\<rparr>"
    by (simp add: step_defs process_event_check_def process_event_mark_def is_processed_def
        select_one_def mark_processed_def insert_or_ignore_def incr_received_def
        incr_unique_processed_def)
  have snap: "get_stats (heap first_delivery) worker_pool = (1, [counters 1 1 0, counters 1 1 0])"
    by (simp only: first) (simp add: get_stats_def alloc_def)
  have second: "heap second_delivery ! 0 = counters 2 1 1"
    by (simp only: first) (simp add: step_defs process_event_check_def is_processed_def
        select_one_def incr_received_def incr_duplicate_dropped_def)
  note snapshot =
    get_stats_snapshot [OF new refl snap refl, of "[(login, Queued)]" "[(1, Resumes Completes)]"]
  have later: "heap second_delivery ! 1 = heap first_delivery ! stats_ref worker_pool"
    by (rule conjunct1 [OF conjunct2 [OF conjunct2 [OF snapshot]]])
  have "heap first_delivery ! stats_ref worker_pool = counters 1 1 0"
    by (simp only: first) simp
  with later have kept: "heap second_delivery ! 1 = counters 1 1 0"
    by (simp only:)
  from new snap kept second show ?thesis by blast
qed

section \<open>Facts about admission\<close>

text \<open>
  C4. The specification wants a submission to a full queue rejected at once. Both handlers
  await \<open>put\<close>, which never raises \<open>QueueFull\<close> and waits on a full queue: on a full queue
  \<open>publish_event\<close> and \<open>publish_batch\<close> give no answer, and the branch \<open>except asyncio.QueueFull\<close>
  that answers 503 is never taken.
\<close>

theorem publish_on_full_queue_waits:
  "full q \<Longrightarrow> publish_event q ev = Waits \<and> publish_batch q (ev # evs) = Waits"
  by (simp add: publish_event_def publish_batch_def put_def)

text \<open>C4 on a queue of capacity 1 that holds one event.\<close>

theorem publish_on_full_queue_waits_witness:
  "full \<lparr>maxsize = 1, items = [login]\<rparr> \<and>
   publish_event \<lparr>maxsize = 1, items = [login]\<rparr> login = Waits \<and>
   publish_batch \<lparr>maxsize = 1, items = [login]\<rparr> [login] = Waits"
proof -
  have f: "full \<lparr>maxsize = 1, items = [login]\<rparr>" by (simp add: full_def)
  from publish_on_full_queue_waits [OF f, of login "[]"] f show ?thesis by simp
qed

section \<open>Facts about event validation\<close>

lemmas iso_defs = fromisoformat_def parse_isoformat_date_def parse_isoformat_time_def
  parse_hh_mm_ss_ff_def parse_fraction_def two_digits_def digits_value_def is_digit_def
  is_sign_def days_in_month_def is_continuation_def

lemmas event_defs = new_Event_def topic_field_def event_id_field_def source_field_def
  validate_event_id_def validate_timestamp_def strip_def leading_def whitespace_def
  py_len_def is_continuation_def

lemma offset_with_seconds_parses:
  "fromisoformat (replace_char (CHR ''Z'') ''+00:00'' ''2024-01-01T10:00:00Z:00'')"
  by (simp add: iso_defs replace_char_def)

lemma inner_Z_does_not_parse: "\<not> fromisoformat ''2024-01-01T10:00:00Z:00''"
  by (simp add: iso_defs)

lemma blank_event_id_rejected:
  "eid = [] \<or> strip eid = [] \<Longrightarrow> isl (new_Event parse tp eid ts src pl)"
  by (auto simp: new_Event_def event_id_field_def validate_event_id_def
      split: sum.splits if_splits)

lemma ideographic_space_rejected:
  "isl (new_Event parse tp [CHR 0x20, CHR 0xE3, CHR 0x80, CHR 0x80, CHR 0x09] ts src pl)"
  by (rule blank_event_id_rejected) (simp add: strip_def leading_def whitespace_def)

lemma event_id_kept:
  "new_Event parse tp eid ts src pl = Inr ev \<Longrightarrow> event_id ev = eid"
  by (auto simp: new_Event_def event_id_field_def validate_event_id_def
      split: sum.splits if_splits)

text \<open>
  C10. Constructing an event is to reject a timestamp that does not parse as ISO-8601 once a
  trailing \<open>Z\<close> is replaced by \<open>+00:00\<close>. The timestamp \<open>2024-01-01T10:00:00Z:00\<close> has no \<open>Z\<close> at its
  end, so that replacement leaves it as it is, and it does not parse. The event is
  constructed all the same: \<open>v.replace('Z', '+00:00')\<close> replaces the \<open>Z\<close> in the middle and
  hands \<open>2024-01-01T10:00:00+00:00:00\<close>, a time with an offset given to the second, to the
  parser.
\<close>

theorem timestamp_with_inner_Z_accepted:
  "replace_trailing_Z ''2024-01-01T10:00:00Z:00'' = ''2024-01-01T10:00:00Z:00'' \<and>
   \<not> fromisoformat ''2024-01-01T10:00:00Z:00'' \<and>
   new_Event fromisoformat ''user.login'' ''evt_1'' ''2024-01-01T10:00:00Z:00'' ''auth-service'' [] =
     Inr \<lparr>topic = ''user.login'', event_id = ''evt_1'', timestamp = ''2024-01-01T10:00:00Z:00'',
          source = ''auth-service'', payload = []\<rparr>"
  using offset_with_seconds_parses inner_Z_does_not_parse
  by (simp add: event_defs replace_trailing_Z_def)

end
